theory Spec2Isabelle
  imports Main "HOL-Library.Sublist"
begin

section \<open>Python strings\<close>

text \<open>
  A Python \<open>str\<close> is modelled as a \<open>string\<close>: one \<open>char\<close> per character, for the
  characters below code point 256. The operations are the ones \<open>src/main.py\<close> calls on its
  strings, each written as a recursive function that the simplifier evaluates on literals.
\<close>

text \<open>\<open>s.startswith(p)\<close>\<close>

fun startswith :: "string \<Rightarrow> string \<Rightarrow> bool" where
  "startswith s [] = True"
| "startswith [] (p # ps) = False"
| "startswith (c # cs) (p # ps) = (c = p \<and> startswith cs ps)"

text \<open>\<open>s.endswith(p)\<close>\<close>

definition endswith :: "string \<Rightarrow> string \<Rightarrow> bool" where
  "endswith s p = startswith (rev s) (rev p)"

text \<open>\<open>sub in s\<close>\<close>

fun contains :: "string \<Rightarrow> string \<Rightarrow> bool" where
  "contains [] sub = (sub = [])"
| "contains (c # cs) sub = (startswith (c # cs) sub \<or> contains cs sub)"

text \<open>
  \<open>str.isspace\<close> on one character: the characters below code point 256 that Python
  counts as whitespace (tab, line feed, vertical tab, form feed, carriage return, the four
  separators 0x1C to 0x1F, space, next line 0x85 and no-break space 0xA0).
\<close>

definition isspace :: "char \<Rightarrow> bool" where
  "isspace c = (c = CHR 0x09 \<or> c = CHR 0x0A \<or> c = CHR 0x0B \<or> c = CHR 0x0C \<or> c = CHR 0x0D
     \<or> c = CHR 0x1C \<or> c = CHR 0x1D \<or> c = CHR 0x1E \<or> c = CHR 0x1F \<or> c = CHR 0x20
     \<or> c = CHR 0x85 \<or> c = CHR 0xA0)"

text \<open>\<open>s.lstrip()\<close>, \<open>s.rstrip()\<close> and \<open>s.strip()\<close> with no argument.\<close>

definition lstrip :: "string \<Rightarrow> string" where
  "lstrip s = dropWhile isspace s"

definition rstrip :: "string \<Rightarrow> string" where
  "rstrip s = rev (dropWhile isspace (rev s))"

definition strip :: "string \<Rightarrow> string" where
  "strip s = rstrip (lstrip s)"

text \<open>The two documentation-string delimiters and the line feed.\<close>

definition dq3 :: string where
  "dq3 = [CHR 0x22, CHR 0x22, CHR 0x22]"

definition sq3 :: string where
  "sq3 = [CHR 0x27, CHR 0x27, CHR 0x27]"

definition nl :: string where
  "nl = [CHR 0x0A]"

section \<open>Files\<close>

text \<open>
  The file system is a map from paths to the text of each file, as Python reads it in text
  mode. \<open>f.readlines()\<close> cuts the text after every line feed: each line keeps its
  terminator, and only the last line can be without one. \<open>f.writelines(ls)\<close> writes the
  lines one after the other.
\<close>

type_synonym files = "string \<rightharpoonup> string"

fun readlines_acc :: "string \<Rightarrow> string \<Rightarrow> string list" where
  "readlines_acc cur [] = (if cur = [] then [] else [cur])"
| "readlines_acc cur (c # cs) =
     (if c = CHR 0x0A then (cur @ [c]) # readlines_acc [] cs else readlines_acc (cur @ [c]) cs)"

definition readlines :: "string \<Rightarrow> string list" where
  "readlines t = readlines_acc [] t"

section \<open>The docstring stripper\<close>

text \<open>
  The two variables that \<open>remove_docstrings_from_patch\<close> carries from one line of the patch
  to the next. \<open>docstring_quotes\<close> is \<open>None\<close> or the delimiter that opened the
  documentation string.
\<close>

record scan_state =
  in_multiline_docstring :: bool
  docstring_quotes :: "string option"

definition OUTSIDE :: scan_state where
  "OUTSIDE = \<lparr>in_multiline_docstring = False, docstring_quotes = None\<rparr>"

definition INSIDE :: "string \<Rightarrow> scan_state" where
  "INSIDE d = \<lparr>in_multiline_docstring = True, docstring_quotes = Some d\<rparr>"

text \<open>
  The test \<open>docstring_quotes and docstring_quotes in added_text\<close>: \<open>None\<close> and the empty
  string are false in Python.
\<close>

definition quotes_in :: "string option \<Rightarrow> string \<Rightarrow> bool" where
  "quotes_in q added_text =
     (case q of None \<Rightarrow> False | Some d \<Rightarrow> d \<noteq> [] \<and> contains added_text d)"

text \<open>
  The body of the loop of \<open>remove_docstrings_from_patch\<close> for one line: the state after
  the line and \<open>should_keep_line\<close>.
\<close>

definition process_line :: "scan_state \<Rightarrow> string \<Rightarrow> scan_state \<times> bool" where
  "process_line st line_content =
     (if startswith line_content ''+'' then
        (let added_text = drop 1 line_content;
             stripped_added_text = lstrip added_text
         in if in_multiline_docstring st then
              (if quotes_in (docstring_quotes st) added_text then (OUTSIDE, False)
               else (st, False))
            else if startswith stripped_added_text dq3 \<and> endswith stripped_added_text dq3
                    \<and> 6 \<le> length stripped_added_text then (st, False)
            else if startswith stripped_added_text sq3 \<and> endswith stripped_added_text sq3
                    \<and> 6 \<le> length stripped_added_text then (st, False)
            else if startswith stripped_added_text dq3 then
              (if contains (drop (length dq3) stripped_added_text) dq3 then (OUTSIDE, False)
               else (INSIDE dq3, False))
            else if startswith stripped_added_text sq3 then
              (if contains (drop (length sq3) stripped_added_text) sq3 then (OUTSIDE, False)
               else (INSIDE sq3, False))
            else (st, True))
      else (st, True))"

text \<open>
  The loop over \<open>lines\<close>: \<open>modified_lines\<close> grows by the lines that are kept. The result
  is \<open>modified_lines\<close> and the state when the loop ends.
\<close>

fun scan_loop :: "string list \<Rightarrow> string list \<Rightarrow> scan_state \<Rightarrow> string list \<times> scan_state" where
  "scan_loop [] modified_lines st = (modified_lines, st)"
| "scan_loop (line_content # rest) modified_lines st =
     (case process_line st line_content of
        (st', should_keep_line) \<Rightarrow>
          scan_loop rest
            (if should_keep_line then modified_lines @ [line_content] else modified_lines) st')"

definition strip_lines :: "string list \<Rightarrow> string list" where
  "strip_lines ls = fst (scan_loop ls [] OUTSIDE)"

definition strip_text :: "string \<Rightarrow> string" where
  "strip_text t = concat (strip_lines (readlines t))"

text \<open>
  Opening a file with mode \<open>"w"\<close> and writing lines to it can go three ways: the lines
  are all written; \<open>open\<close> raises, and the file is as it was; or \<open>open\<close> has emptied the
  file and an exception comes when only the first \<open>k\<close> characters are in it. The result is
  the file system afterwards and whether no exception was raised.
\<close>

datatype write_outcome = Written | OpenFails | FailsAfter nat

definition writelines :: "write_outcome \<Rightarrow> files \<Rightarrow> string \<Rightarrow> string list \<Rightarrow> files \<times> bool" where
  "writelines w fs path ls =
     (case w of
        Written \<Rightarrow> (fs(path \<mapsto> concat ls), True)
      | OpenFails \<Rightarrow> (fs, False)
      | FailsAfter k \<Rightarrow> (fs(path \<mapsto> take k (concat ls)), False))"

text \<open>
  \<open>remove_docstrings_from_patch\<close>: a patch file that does not exist gives \<open>False\<close>
  (\<open>FileNotFoundError\<close> is caught); an exception while writing gives \<open>False\<close> as well.
\<close>

definition remove_docstrings_from_patch :: "write_outcome \<Rightarrow> files \<Rightarrow> string \<Rightarrow> files \<times> bool" where
  "remove_docstrings_from_patch w fs patch_file_path =
     (case fs patch_file_path of
        None \<Rightarrow> (fs, False)
      | Some t \<Rightarrow> writelines w fs patch_file_path (strip_lines (readlines t)))"

section \<open>The header of the patch\<close>

text \<open>\<open>modify_patch_file\<close>: the three lines of \<open>new_header\<close>, then \<open>lines[2:]\<close>.\<close>

definition new_header :: "string list" where
  "new_header =
     [''diff --git a/django/forms/widgets.py b/django/forms/widgets.py\<newline>'',
      ''--- a/django/forms/widgets.py\<newline>'',
      ''+++ b/django/forms/widgets.py\<newline>'']"

definition modify_patch_file :: "write_outcome \<Rightarrow> files \<Rightarrow> string \<Rightarrow> files \<times> bool" where
  "modify_patch_file w fs patch_file_path =
     (case fs patch_file_path of
        None \<Rightarrow> (fs, False)
      | Some t \<Rightarrow> writelines w fs patch_file_path (new_header @ drop 2 (readlines t)))"

text \<open>
  The header the specification describes for a target path \<open>p\<close>, to compare with
  \<open>new_header\<close>.
\<close>

definition canonical_header :: "string \<Rightarrow> string list" where
  "canonical_header p =
     [''diff --git a/'' @ p @ '' b/'' @ p @ ''\<newline>'',
      ''--- a/'' @ p @ ''\<newline>'',
      ''+++ b/'' @ p @ ''\<newline>'']"

section \<open>Packaging\<close>

text \<open>
  \<open>save_patch_to_jsonl\<close> writes one record and a line feed. \<open>json.dump\<close> belongs to the
  Python library: the text it produces for a record is the parameter \<open>json_dumps\<close>. A
  missing patch file and an exception while writing are both caught: nothing is returned.
\<close>

record patch_data =
  instance_id :: string
  model_name_or_path :: string
  model_patch :: string

definition save_patch_to_jsonl ::
  "(patch_data \<Rightarrow> string) \<Rightarrow> write_outcome \<Rightarrow> files \<Rightarrow> string \<Rightarrow> string \<Rightarrow> string \<Rightarrow> string \<Rightarrow> files" where
  "save_patch_to_jsonl json_dumps w fs patch_file_path iid model_name output_jsonl_file =
     (case fs patch_file_path of
        None \<Rightarrow> fs
      | Some patch_content \<Rightarrow>
          fst (writelines w fs output_jsonl_file
                 [json_dumps \<lparr>instance_id = iid, model_name_or_path = model_name,
                               model_patch = patch_content\<rparr>,
                  ''\<newline>'']))"

text \<open>
  The end of \<open>main\<close>, once the diff is in the patch file: the record is saved only when
  \<open>remove_docstrings_from_patch\<close> and then \<open>modify_patch_file\<close> have returned \<open>True\<close>.
  \<open>w1\<close>, \<open>w2\<close> and \<open>w3\<close> are how the three writes go.
\<close>

definition package_patch ::
  "(patch_data \<Rightarrow> string) \<Rightarrow> write_outcome \<Rightarrow> write_outcome \<Rightarrow> write_outcome \<Rightarrow> files
     \<Rightarrow> string \<Rightarrow> string \<Rightarrow> string \<Rightarrow> files" where
  "package_patch json_dumps w1 w2 w3 fs patch_diff_path iid output_jsonl_path =
     (case remove_docstrings_from_patch w1 fs patch_diff_path of
        (fs1, ok1) \<Rightarrow>
          if ok1 then
            (case modify_patch_file w2 fs1 patch_diff_path of
               (fs2, ok2) \<Rightarrow>
                 if ok2 then
                   save_patch_to_jsonl json_dumps w3 fs2 patch_diff_path iid ''gemini-2.5-pro''
                     output_jsonl_path
                 else fs2)
          else fs1)"

section \<open>The code extractor\<close>

definition fence :: string where
  "fence = ''```''"

definition python_open :: string where
  "python_open = ''```python\<newline>''"

definition plain_open :: string where
  "plain_open = ''```\<newline>''"

text \<open>
  The tail \<open>(.*?)```\<close> of both patterns, matched at the start of a text: the group is the
  shortest text that a fence follows (with \<open>re.DOTALL\<close> the dot matches every character).
\<close>

fun until_fence :: "string \<Rightarrow> string option" where
  "until_fence [] = None"
| "until_fence (c # cs) =
     (if startswith (c # cs) fence then Some [] else map_option ((#) c) (until_fence cs))"

text \<open>The pattern \<open>opener(.*?)```\<close> matched at the start of a text: group 1, or no match.\<close>

definition match_at :: "string \<Rightarrow> string \<Rightarrow> string option" where
  "match_at opener s =
     (if startswith s opener then until_fence (drop (length opener) s) else None)"

text \<open>
  \<open>re.search\<close> tries the start positions from left to right and stops at the first one
  where the pattern matches.
\<close>

fun re_search :: "string \<Rightarrow> string \<Rightarrow> string option" where
  "re_search opener [] = match_at opener []"
| "re_search opener (c # cs) =
     (case match_at opener (c # cs) of
        Some g \<Rightarrow> Some g
      | None \<Rightarrow> re_search opener cs)"

text \<open>The test on the start of the trimmed output.\<close>

definition starts_like_code :: "string \<Rightarrow> bool" where
  "starts_like_code output =
     (startswith (strip output) ''class'' \<or> startswith (strip output) ''def''
      \<or> startswith (strip output) ''import'' \<or> startswith (strip output) dq3)"

text \<open>
  \<open>extract_code_from_output\<close>. The last two branches both return the output: the second
  one prints it first.
\<close>

definition extract_code_from_output :: "string \<Rightarrow> string" where
  "extract_code_from_output output =
     (case re_search python_open output of
        Some g \<Rightarrow> g
      | None \<Rightarrow>
          (case re_search plain_open output of
             Some g \<Rightarrow> g
           | None \<Rightarrow> if starts_like_code output then output else output))"

text \<open>\<open>clean_code_output\<close>: its three \<open>if\<close> statements, one after the other.\<close>

definition clean_code_output :: "string \<Rightarrow> string" where
  "clean_code_output code =
     (let code1 = (if startswith code ''```python''
                   then lstrip (drop (length ''```python'') code) else code);
          code2 = (if startswith code1 ''```''
                   then lstrip (drop (length ''```'') code1) else code1)
      in if endswith code2 ''```''
         then rstrip (take (length code2 - length ''```'') code2) else code2)"

text \<open>
  What \<open>main\<close> does with the output of the generator: an empty \<open>code_block\<close> ends the
  run (\<open>sys.exit(1)\<close> after "Could not extract code"), here the error
  \<open>ExtractionError\<close>; any other is cleaned and goes on to the diff.
\<close>

datatype error = ExtractionError

definition extract_stage :: "string \<Rightarrow> error + string" where
  "extract_stage code_generator_output =
     (let code_block = extract_code_from_output code_generator_output
      in if code_block = [] then Inl ExtractionError
         else Inr (clean_code_output code_block))"

section \<open>Line lists that a file can hold\<close>

text \<open>
  What \<open>readlines\<close> can return: no line is empty, a line feed stands only at the end of
  a line, and every line but the last ends with one.
\<close>

fun wf_lines :: "string list \<Rightarrow> bool" where
  "wf_lines [] = True"
| "wf_lines (l # ls) =
     (l \<noteq> [] \<and> CHR 0x0A \<notin> set (butlast l) \<and> (ls \<noteq> [] \<longrightarrow> last l = CHR 0x0A) \<and> wf_lines ls)"

section \<open>Lemmas on strings and lines\<close>

lemma startswith_prefix: "startswith s p = prefix p s"
  by (induction s p rule: startswith.induct) auto

lemma endswith_suffix: "endswith s p = suffix p s"
  by (simp add: endswith_def startswith_prefix suffix_to_prefix)

lemma contains_sublist: "contains s sub = sublist sub s"
proof (induction s)
  case Nil
  show ?case by auto
next
  case (Cons c cs)
  show ?case
  proof (cases sub)
    case Nil
    then show ?thesis by simp
  next
    case (Cons x xs)
    then show ?thesis using Cons.IH by (simp add: startswith_prefix sublist_Cons_right)
  qed
qed

lemma scan_loop_acc:
  "scan_loop ls acc st = (acc @ fst (scan_loop ls [] st), snd (scan_loop ls [] st))"
proof (induction ls arbitrary: acc st)
  case Nil
  show ?case by simp
next
  case (Cons l ls)
  obtain st' keep where step: "process_line st l = (st', keep)"
    by (cases "process_line st l")
  show ?case
    using Cons.IH [of "acc @ [l]" st'] Cons.IH [of acc st'] Cons.IH [of "[l]" st']
      Cons.IH [of "[]" st']
    by (cases keep) (simp_all add: step)
qed

lemma process_line_not_added:
  "\<not> startswith l ''+'' \<Longrightarrow> process_line st l = (st, True)"
  by (simp add: process_line_def)

lemma scan_loop_filter:
  "filter (\<lambda>l. \<not> startswith l ''+'') (fst (scan_loop ls acc st))
     = filter (\<lambda>l. \<not> startswith l ''+'') acc @ filter (\<lambda>l. \<not> startswith l ''+'') ls"
proof (induction ls arbitrary: acc st)
  case Nil
  show ?case by simp
next
  case (Cons l ls)
  obtain st' keep where step: "process_line st l = (st', keep)"
    by (cases "process_line st l")
  show ?case
  proof (cases "startswith l ''+''")
    case True
    then show ?thesis
      using Cons.IH [of "acc @ [l]" st'] Cons.IH [of acc st']
      by (cases keep) (simp_all add: step)
  next
    case False
    then have "process_line st l = (st, True)"
      by (rule process_line_not_added)
    then show ?thesis
      using False Cons.IH [of "acc @ [l]" st] by simp
  qed
qed

lemma readlines_acc_no_nl:
  "CHR 0x0A \<notin> set s \<Longrightarrow> readlines_acc cur (s @ t) = readlines_acc (cur @ s) t"
  by (induction s arbitrary: cur) auto

lemma readlines_acc_line:
  assumes "l \<noteq> []" "CHR 0x0A \<notin> set (butlast l)" "last l = CHR 0x0A"
  shows "readlines_acc cur (l @ t) = (cur @ l) # readlines_acc [] t"
proof -
  have l: "l = butlast l @ [CHR 0x0A]"
    using assms(1,3) by (metis append_butlast_last_id)
  have "readlines_acc cur (butlast l @ ([CHR 0x0A] @ t)) = readlines_acc (cur @ butlast l) ([CHR 0x0A] @ t)"
    using assms(2) by (rule readlines_acc_no_nl)
  then have "readlines_acc cur ((butlast l @ [CHR 0x0A]) @ t) = (cur @ butlast l @ [CHR 0x0A]) # readlines_acc [] t"
    by simp
  then show ?thesis using l by simp
qed

lemma readlines_acc_last:
  assumes "l \<noteq> []" "CHR 0x0A \<notin> set (butlast l)"
  shows "readlines_acc cur l = [cur @ l]"
proof (cases "last l = CHR 0x0A")
  case True
  then show ?thesis using readlines_acc_line [OF assms True, of cur "[]"] by simp
next
  case False
  then have "CHR 0x0A \<notin> set l"
    using assms by (metis append_butlast_last_id insert_iff list.simps(15) rotate1.simps(2) set_rotate1)
  then have "readlines_acc cur (l @ []) = readlines_acc (cur @ l) []"
    by (rule readlines_acc_no_nl)
  then show ?thesis using assms(1) by simp
qed

lemma readlines_concat: "wf_lines ls \<Longrightarrow> readlines (concat ls) = ls"
proof (induction ls)
  case Nil
  show ?case by (simp add: readlines_def)
next
  case (Cons l ls)
  show ?case
  proof (cases "ls = []")
    case True
    then show ?thesis using Cons.prems readlines_acc_last [of l "[]"]
      by (simp add: readlines_def)
  next
    case False
    then have "readlines_acc [] (l @ concat ls) = ([] @ l) # readlines_acc [] (concat ls)"
      using Cons.prems by (intro readlines_acc_line) simp_all
    then show ?thesis using Cons by (simp add: readlines_def)
  qed
qed

lemma wf_readlines_acc: "CHR 0x0A \<notin> set cur \<Longrightarrow> wf_lines (readlines_acc cur t)"
proof (induction t arbitrary: cur)
  case Nil
  then show ?case by (simp add: butlast_append) (metis in_set_butlastD)
next
  case (Cons c cs)
  show ?case
  proof (cases "c = CHR 0x0A")
    case True
    then show ?thesis using Cons.prems Cons.IH [of "[]"] by simp
  next
    case False
    then show ?thesis using Cons.prems Cons.IH [of "cur @ [c]"] by simp
  qed
qed

lemma wf_readlines: "wf_lines (readlines t)"
  by (simp add: readlines_def wf_readlines_acc)

lemma wf_lines_subseq: "subseq xs ys \<Longrightarrow> wf_lines ys \<Longrightarrow> wf_lines xs"
proof (induction rule: list_emb.induct)
  case (list_emb_Nil ys)
  show ?case by simp
next
  case (list_emb_Cons xs ys y)
  then show ?case by simp
next
  case (list_emb_Cons2 x y xs ys)
  then have "xs \<noteq> [] \<Longrightarrow> ys \<noteq> []" by auto
  then show ?case using list_emb_Cons2 by auto
qed

lemma subseq_scan_loop: "subseq (fst (scan_loop ls [] st)) ls"
proof (induction ls arbitrary: st)
  case Nil
  show ?case by simp
next
  case (Cons l ls)
  obtain st' keep where step: "process_line st l = (st', keep)"
    by (cases "process_line st l")
  show ?case
    using Cons.IH [of st'] scan_loop_acc [of ls "[l]" st']
    by (cases keep) (auto simp: step)
qed

lemma readlines_strip_text: "readlines (strip_text t) = strip_lines (readlines t)"
  unfolding strip_text_def strip_lines_def
  by (intro readlines_concat wf_lines_subseq [OF subseq_scan_loop] wf_readlines)

lemmas stripper_defs = process_line_def lstrip_def isspace_def dq3_def sq3_def endswith_def
  OUTSIDE_def INSIDE_def quotes_in_def

lemma process_line_inside:
  "d \<noteq> [] \<Longrightarrow> process_line (INSIDE d) (CHR ''+'' # added_text)
     = (if contains added_text d then OUTSIDE else INSIDE d, False)"
  by (simp add: process_line_def INSIDE_def quotes_in_def)

lemma process_line_one_line_docstring:
  assumes "d = dq3 \<or> d = sq3"
    and "startswith (lstrip added_text) d" "endswith (lstrip added_text) d"
    and "6 \<le> length (lstrip added_text)"
  shows "process_line OUTSIDE (CHR ''+'' # added_text) = (OUTSIDE, False)"
  using assms by (auto simp: process_line_def OUTSIDE_def Let_def)

lemma process_line_ordinary:
  assumes "\<not> startswith (lstrip added_text) dq3" "\<not> startswith (lstrip added_text) sq3"
  shows "process_line OUTSIDE (CHR ''+'' # added_text) = (OUTSIDE, True)"
  using assms by (simp add: process_line_def OUTSIDE_def Let_def)

lemma scan_loop_append:
  "scan_loop (xs @ ys) acc st = scan_loop ys (fst (scan_loop xs acc st)) (snd (scan_loop xs acc st))"
proof (induction xs arbitrary: acc st)
  case Nil
  show ?case by simp
next
  case (Cons l ls)
  obtain st' keep where step: "process_line st l = (st', keep)"
    by (cases "process_line st l")
  show ?case
    using Cons.IH [of "acc @ [l]" st'] Cons.IH [of acc st']
    by (cases keep) (simp_all add: step)
qed

lemma scan_loop_kept_line:
  assumes "process_line (snd (scan_loop pre [] st)) l = (snd (scan_loop pre [] st), True)"
  shows "fst (scan_loop (pre @ l # post) [] st)
           = fst (scan_loop pre [] st) @ l # fst (scan_loop post [] (snd (scan_loop pre [] st)))"
proof -
  have "scan_loop (pre @ l # post) [] st
          = scan_loop (l # post) (fst (scan_loop pre [] st)) (snd (scan_loop pre [] st))"
    by (rule scan_loop_append)
  also have "\<dots> = scan_loop post (fst (scan_loop pre [] st) @ [l]) (snd (scan_loop pre [] st))"
    using assms by simp
  finally show ?thesis
    using scan_loop_acc [of post "fst (scan_loop pre [] st) @ [l]" "snd (scan_loop pre [] st)"]
    by simp
qed

lemma process_line_plus_header:
  assumes "startswith l ''+++''" "\<not> in_multiline_docstring st"
  shows "process_line st l = (st, True)"
proof -
  obtain r where l: "l = ''+++'' @ r"
    using assms(1) by (auto simp: startswith_prefix elim: prefixE)
  show ?thesis using assms(2)
    by (simp add: l process_line_def lstrip_def isspace_def dq3_def sq3_def)
qed

section \<open>Claims on the docstring stripper\<close>

text \<open>
  C1. The stripper keeps every line that does not begin with \<open>+\<close>, verbatim and in the
  order of the input: the lines without a leading \<open>+\<close> of the output are those of the
  input. This holds for the list of lines the loop runs over, and for the text of the file
  before and after, read back as lines.
\<close>

theorem non_addition_lines_preserved:
  "filter (\<lambda>l. \<not> startswith l ''+'') (strip_lines ls) = filter (\<lambda>l. \<not> startswith l ''+'') ls
   \<and> filter (\<lambda>l. \<not> startswith l ''+'') (readlines (strip_text t))
       = filter (\<lambda>l. \<not> startswith l ''+'') (readlines t)"
  by (simp add: readlines_strip_text strip_lines_def scan_loop_filter)

text \<open>
  C2. In state \<open>INSIDE d\<close>, for either delimiter, every addition line is dropped, and the
  state after it is \<open>OUTSIDE\<close> exactly when the added text (the line without its \<open>+\<close>)
  contains \<open>d\<close>. The three addition lines of a multi-line documentation string, scanned
  from \<open>OUTSIDE\<close>, are all dropped and leave the state \<open>OUTSIDE\<close>, with their line
  feeds as \<open>readlines\<close> gives them and without; line by line, the state is
  \<open>INSIDE\<close> after the first and the second and \<open>OUTSIDE\<close> after the third.
\<close>

theorem inside_state_drops_additions:
  "process_line (INSIDE dq3) (CHR ''+'' # added_text)
     = (if contains added_text dq3 then OUTSIDE else INSIDE dq3, False)
   \<and> process_line (INSIDE sq3) (CHR ''+'' # added_text)
     = (if contains added_text sq3 then OUTSIDE else INSIDE sq3, False)
   \<and> scan_loop [''+    '' @ dq3 @ ''\<newline>'', ''+    Multi-line.\<newline>'', ''+    '' @ dq3 @ ''\<newline>''] []
         OUTSIDE = ([], OUTSIDE)
   \<and> scan_loop [''+    '' @ dq3, ''+    Multi-line.'', ''+    '' @ dq3] [] OUTSIDE = ([], OUTSIDE)
   \<and> process_line OUTSIDE (''+    '' @ dq3) = (INSIDE dq3, False)
   \<and> process_line (INSIDE dq3) ''+    Multi-line.'' = (INSIDE dq3, False)
   \<and> process_line (INSIDE dq3) (''+    '' @ dq3) = (OUTSIDE, False)"
proof -
  have a: "process_line (INSIDE dq3) (CHR ''+'' # added_text)
     = (if contains added_text dq3 then OUTSIDE else INSIDE dq3, False)"
    by (rule process_line_inside) (simp add: dq3_def)
  have b: "process_line (INSIDE sq3) (CHR ''+'' # added_text)
     = (if contains added_text sq3 then OUTSIDE else INSIDE sq3, False)"
    by (rule process_line_inside) (simp add: sq3_def)
  have c: "scan_loop [''+    '' @ dq3 @ ''\<newline>'', ''+    Multi-line.\<newline>'', ''+    '' @ dq3 @ ''\<newline>''] []
         OUTSIDE = ([], OUTSIDE)"
    by (simp add: stripper_defs)
  have d: "scan_loop [''+    '' @ dq3, ''+    Multi-line.'', ''+    '' @ dq3] [] OUTSIDE = ([], OUTSIDE)"
    by (simp add: stripper_defs)
  have e: "process_line OUTSIDE (''+    '' @ dq3) = (INSIDE dq3, False)"
    by (simp add: stripper_defs)
  have f: "process_line (INSIDE dq3) ''+    Multi-line.'' = (INSIDE dq3, False)"
    by (simp add: stripper_defs)
  have g: "process_line (INSIDE dq3) (''+    '' @ dq3) = (OUTSIDE, False)"
    by (simp add: stripper_defs)
  show ?thesis using a b c d e f g by blast
qed

text \<open>
  C3. In state \<open>OUTSIDE\<close> the addition line of a one-line documentation string is dropped
  and leaves the state \<open>OUTSIDE\<close>: the line of the specification, with its line feed and
  without, and every addition line whose trimmed text starts and ends with the same
  delimiter and has six characters or more. An ordinary addition line right after it (one
  whose trimmed text starts with neither delimiter) is kept.
\<close>

theorem one_line_docstring_dropped:
  "process_line OUTSIDE (''+    '' @ dq3 @ ''This is a docstring.'' @ dq3) = (OUTSIDE, False)
   \<and> process_line OUTSIDE (''+    '' @ dq3 @ ''This is a docstring.'' @ dq3 @ ''\<newline>'')
       = (OUTSIDE, False)
   \<and> ((d = dq3 \<or> d = sq3) \<and> startswith (lstrip added_text) d \<and> endswith (lstrip added_text) d
        \<and> 6 \<le> length (lstrip added_text)
      \<longrightarrow> process_line OUTSIDE (CHR ''+'' # added_text) = (OUTSIDE, False))
   \<and> (\<not> startswith (lstrip next_text) dq3 \<and> \<not> startswith (lstrip next_text) sq3
      \<longrightarrow> strip_lines [''+    '' @ dq3 @ ''This is a docstring.'' @ dq3 @ ''\<newline>'',
                        CHR ''+'' # next_text] = [CHR ''+'' # next_text]
          \<and> strip_lines [''+    '' @ dq3 @ ''This is a docstring.'' @ dq3,
                        CHR ''+'' # next_text] = [CHR ''+'' # next_text])"
proof -
  have a: "process_line OUTSIDE (''+    '' @ dq3 @ ''This is a docstring.'' @ dq3) = (OUTSIDE, False)"
    by (simp add: stripper_defs)
  have b: "process_line OUTSIDE (''+    '' @ dq3 @ ''This is a docstring.'' @ dq3 @ ''\<newline>'')
       = (OUTSIDE, False)"
    by (simp add: stripper_defs)
  have c: "process_line OUTSIDE (CHR ''+'' # added_text) = (OUTSIDE, False)"
    if "d = dq3 \<or> d = sq3" "startswith (lstrip added_text) d" "endswith (lstrip added_text) d"
      "6 \<le> length (lstrip added_text)"
    using that by (rule process_line_one_line_docstring)
  have d: "strip_lines [''+    '' @ dq3 @ ''This is a docstring.'' @ dq3 @ ''\<newline>'',
                        CHR ''+'' # next_text] = [CHR ''+'' # next_text]
          \<and> strip_lines [''+    '' @ dq3 @ ''This is a docstring.'' @ dq3,
                        CHR ''+'' # next_text] = [CHR ''+'' # next_text]"
    if "\<not> startswith (lstrip next_text) dq3" "\<not> startswith (lstrip next_text) sq3"
    using a b process_line_ordinary [OF that] by (simp add: strip_lines_def)
  show ?thesis using a b c d by blast
qed

theorem one_line_docstring_dropped_witness:
  "\<not> startswith (lstrip ''    return 2\<newline>'') dq3 \<and> \<not> startswith (lstrip ''    return 2\<newline>'') sq3
   \<and> startswith (lstrip (''  '' @ sq3 @ ''doc'' @ sq3)) sq3
   \<and> endswith (lstrip (''  '' @ sq3 @ ''doc'' @ sq3)) sq3
   \<and> 6 \<le> length (lstrip (''  '' @ sq3 @ ''doc'' @ sq3))
   \<and> process_line OUTSIDE (CHR ''+'' # ''  '' @ sq3 @ ''doc'' @ sq3) = (OUTSIDE, False)
   \<and> strip_lines [''+    '' @ dq3 @ ''This is a docstring.'' @ dq3 @ ''\<newline>'', ''+    return 2\<newline>'']
       = [''+    return 2\<newline>'']"
  using one_line_docstring_dropped [of sq3 "''  '' @ sq3 @ ''doc'' @ sq3" "''    return 2\<newline>''"]
  by (simp add: lstrip_def isspace_def dq3_def sq3_def endswith_def)

text \<open>
  C4, as the code has it. A line that does not begin with \<open>+\<close> is kept in every state and
  leaves it unchanged; so the \<open>---\<close> header and every \<open>@@\<close> range marker stand in the
  output, between the kept lines before and after them. The \<open>+++\<close> header begins with
  \<open>+\<close>: it is kept where the scan is not inside a documentation string, which is so for
  the second line of a patch whose first line is not an addition.
\<close>

theorem structural_lines_kept:
  "(\<not> startswith m ''+'' \<longrightarrow> process_line st m = (st, True))
   \<and> (startswith l ''---'' \<or> startswith l ''@@''
        \<or> startswith l ''+++'' \<and> \<not> in_multiline_docstring (snd (scan_loop pre [] OUTSIDE))
      \<longrightarrow> strip_lines (pre @ l # post)
            = strip_lines pre @ l # fst (scan_loop post [] (snd (scan_loop pre [] OUTSIDE))))
   \<and> (\<not> startswith h ''+'' \<and> startswith k ''+++''
      \<longrightarrow> strip_lines (h # k # body) = h # k # strip_lines body)"
proof -
  have a: "process_line st l = (st, True)" if "\<not> startswith l ''+''" for st l
    using that by (rule process_line_not_added)
  have b: "strip_lines (pre @ l # post)
            = strip_lines pre @ l # fst (scan_loop post [] (snd (scan_loop pre [] OUTSIDE)))"
    if "startswith l ''---'' \<or> startswith l ''@@''
        \<or> startswith l ''+++'' \<and> \<not> in_multiline_docstring (snd (scan_loop pre [] OUTSIDE))"
  proof -
    have "\<not> startswith l ''+'' \<or> startswith l ''+++'' \<and> \<not> in_multiline_docstring (snd (scan_loop pre [] OUTSIDE))"
      using that by (cases l) auto
    then have "process_line (snd (scan_loop pre [] OUTSIDE)) l = (snd (scan_loop pre [] OUTSIDE), True)"
      using a process_line_plus_header by blast
    then show ?thesis
      unfolding strip_lines_def by (rule scan_loop_kept_line)
  qed
  have c: "strip_lines (h # k # body) = h # k # strip_lines body"
    if "\<not> startswith h ''+''" "startswith k ''+++''"
  proof -
    have "process_line OUTSIDE h = (OUTSIDE, True)"
      using that(1) by (rule process_line_not_added)
    moreover have "process_line OUTSIDE k = (OUTSIDE, True)"
      using that(2) by (rule process_line_plus_header) (simp add: OUTSIDE_def)
    ultimately show ?thesis
      using scan_loop_acc [of body "[h, k]" OUTSIDE] by (simp add: strip_lines_def)
  qed
  show ?thesis using a b c by blast
qed

theorem structural_lines_kept_witness:
  "\<not> startswith ''@@ -1 +1 @@\<newline>'' ''+''
   \<and> process_line (INSIDE dq3) ''@@ -1 +1 @@\<newline>'' = (INSIDE dq3, True)
   \<and> startswith ''@@ -1 +1 @@\<newline>'' ''@@''
   \<and> strip_lines ([''--- a/f.py\<newline>'', ''+++ b/f.py\<newline>'', ''@@ -1 +1,2 @@\<newline>'', '' def f():\<newline>'',
          ''+    '' @ dq3 @ ''Doc\<newline>''] @ ''@@ -1 +1 @@\<newline>'' # [''+y = 2\<newline>''])
       = [''--- a/f.py\<newline>'', ''+++ b/f.py\<newline>'', ''@@ -1 +1,2 @@\<newline>'', '' def f():\<newline>'',
          ''@@ -1 +1 @@\<newline>'']
   \<and> \<not> startswith ''--- a/f.py\<newline>'' ''+'' \<and> startswith ''+++ b/f.py\<newline>'' ''+++''
   \<and> strip_lines (''--- a/f.py\<newline>'' # ''+++ b/f.py\<newline>'' # [''@@ -1 +1 @@\<newline>'', ''-y = 1\<newline>'',
          ''+y = 2\<newline>''])
       = [''--- a/f.py\<newline>'', ''+++ b/f.py\<newline>'', ''@@ -1 +1 @@\<newline>'', ''-y = 1\<newline>'', ''+y = 2\<newline>'']"
  using structural_lines_kept [of "''@@ -1 +1 @@\<newline>''" "INSIDE dq3" "''@@ -1 +1 @@\<newline>''"
      "[''--- a/f.py\<newline>'', ''+++ b/f.py\<newline>'', ''@@ -1 +1,2 @@\<newline>'', '' def f():\<newline>'',
          ''+    '' @ dq3 @ ''Doc\<newline>'']" "[''+y = 2\<newline>'']"
      "''--- a/f.py\<newline>''" "''+++ b/f.py\<newline>''"
      "[''@@ -1 +1 @@\<newline>'', ''-y = 1\<newline>'', ''+y = 2\<newline>'']"]
  by (simp add: strip_lines_def stripper_defs)

text \<open>
  The \<open>+++\<close> header of a second file is dropped when the scan reaches it inside a
  documentation string: here the added opening line of the first file is closed by a
  context line, which never changes the state.
\<close>

theorem plus_header_dropped_inside:
  "process_line (INSIDE dq3) ''+++ b/g.py\<newline>'' = (INSIDE dq3, False)
   \<and> strip_lines [''--- a/f.py\<newline>'', ''+++ b/f.py\<newline>'', ''@@ -1,2 +1,3 @@\<newline>'', '' def f():\<newline>'',
          ''+    '' @ dq3 @ ''Doc\<newline>'', ''     '' @ dq3 @ ''\<newline>'',
          ''--- a/g.py\<newline>'', ''+++ b/g.py\<newline>'', ''@@ -1 +1 @@\<newline>'', ''-y = 1\<newline>'', ''+y = 2\<newline>'']
       = [''--- a/f.py\<newline>'', ''+++ b/f.py\<newline>'', ''@@ -1,2 +1,3 @@\<newline>'', '' def f():\<newline>'',
          ''     '' @ dq3 @ ''\<newline>'', ''--- a/g.py\<newline>'', ''@@ -1 +1 @@\<newline>'', ''-y = 1\<newline>'']"
  by (simp add: strip_lines_def stripper_defs)

section \<open>Lemmas on the header and on writing the patch file\<close>

lemma wf_lines_drop: "wf_lines ls \<Longrightarrow> wf_lines (drop n ls)"
  by (rule wf_lines_subseq [OF sublist_imp_subseq [OF suffix_imp_sublist [OF suffix_drop]]])

lemma wf_new_header: "wf_lines ls \<Longrightarrow> wf_lines (new_header @ ls)"
  by (simp add: new_header_def)

lemma readlines_new_header:
  "readlines (concat (new_header @ drop 2 (readlines t))) = new_header @ drop 2 (readlines t)"
  by (intro readlines_concat wf_new_header wf_lines_drop wf_readlines)

lemma new_header_canonical: "new_header = canonical_header ''django/forms/widgets.py''"
  by (simp add: new_header_def canonical_header_def)

lemma remove_docstrings_True:
  assumes "remove_docstrings_from_patch w fs p = (fs1, True)"
  shows "w = Written \<and> fs p \<noteq> None \<and> fs1 = fs(p \<mapsto> strip_text (the (fs p)))"
  using assms
  by (auto simp: remove_docstrings_from_patch_def writelines_def strip_text_def
      split: option.splits write_outcome.splits)

lemma modify_patch_True:
  assumes "modify_patch_file w fs p = (fs2, True)"
  shows "w = Written \<and> fs p \<noteq> None
         \<and> fs2 = fs(p \<mapsto> concat (new_header @ drop 2 (readlines (the (fs p)))))"
  using assms
  by (auto simp: modify_patch_file_def writelines_def split: option.splits write_outcome.splits)

lemma remove_docstrings_other: "out \<noteq> p \<Longrightarrow> fst (remove_docstrings_from_patch w fs p) out = fs out"
  by (simp add: remove_docstrings_from_patch_def writelines_def
      split: option.splits write_outcome.splits)

lemma modify_patch_other: "out \<noteq> p \<Longrightarrow> fst (modify_patch_file w fs p) out = fs out"
  by (simp add: modify_patch_file_def writelines_def split: option.splits write_outcome.splits)

lemma remove_docstrings_False: "w \<noteq> Written \<Longrightarrow> \<not> snd (remove_docstrings_from_patch w fs p)"
  by (simp add: remove_docstrings_from_patch_def writelines_def
      split: option.splits write_outcome.splits)

lemma modify_patch_False: "w \<noteq> Written \<Longrightarrow> \<not> snd (modify_patch_file w fs p)"
  by (simp add: modify_patch_file_def writelines_def split: option.splits write_outcome.splits)

lemma package_patch_no_record:
  assumes "w1 \<noteq> Written \<or> w2 \<noteq> Written" "out \<noteq> p"
  shows "package_patch json_dumps w1 w2 w3 fs p iid out out = fs out"
proof -
  obtain fs1 ok1 where r: "remove_docstrings_from_patch w1 fs p = (fs1, ok1)"
    by (cases "remove_docstrings_from_patch w1 fs p")
  obtain fs2 ok2 where m: "modify_patch_file w2 fs1 p = (fs2, ok2)"
    by (cases "modify_patch_file w2 fs1 p")
  have fs1: "fs1 out = fs out"
    using remove_docstrings_other [OF assms(2), of w1 fs] r by simp
  have fs2: "fs2 out = fs1 out"
    using modify_patch_other [OF assms(2), of w2 fs1] m by simp
  have "\<not> (ok1 \<and> ok2)"
    using assms(1) remove_docstrings_False [of w1 fs p] modify_patch_False [of w2 fs1 p] r m
    by auto
  then show ?thesis
    using fs1 fs2 by (auto simp: package_patch_def r m)
qed

section \<open>Claims on the header and on writing the patch file\<close>

text \<open>
  C5, as the code has it. \<open>modify_patch_file\<close> takes no target path: for every patch
  file, whatever its number of lines, the first three lines of the file it writes are the
  header for \<open>django/forms/widgets.py\<close>, and the lines after them are the lines of the
  file it read from index 2 on.
\<close>

theorem header_replaced:
  "fs p = Some t \<longrightarrow>
     modify_patch_file Written fs p = (fs(p \<mapsto> concat (new_header @ drop 2 (readlines t))), True)
     \<and> take 3 (readlines (concat (new_header @ drop 2 (readlines t))))
         = canonical_header ''django/forms/widgets.py''
     \<and> drop 3 (readlines (concat (new_header @ drop 2 (readlines t)))) = drop 2 (readlines t)"
proof -
  have len: "length new_header = 3"
    by (simp add: new_header_def)
  have written: "modify_patch_file Written fs p
      = (fs(p \<mapsto> concat (new_header @ drop 2 (readlines t))), True)" if "fs p = Some t"
    using that by (simp add: modify_patch_file_def writelines_def)
  show ?thesis
    unfolding readlines_new_header
    using len written new_header_canonical by simp
qed

theorem header_replaced_witness:
  "[''patch.diff'' \<mapsto> ''--- /tmp/a.py\<newline>+++ /tmp/b.py\<newline>@@ -1 +1 @@\<newline>-x\<newline>+y\<newline>''] ''patch.diff''
     = Some ''--- /tmp/a.py\<newline>+++ /tmp/b.py\<newline>@@ -1 +1 @@\<newline>-x\<newline>+y\<newline>''
   \<and> modify_patch_file Written
        [''patch.diff'' \<mapsto> ''--- /tmp/a.py\<newline>+++ /tmp/b.py\<newline>@@ -1 +1 @@\<newline>-x\<newline>+y\<newline>''] ''patch.diff''
     = ([''patch.diff'' \<mapsto>
          ''diff --git a/django/forms/widgets.py b/django/forms/widgets.py\<newline>--- a/django/forms/widgets.py\<newline>+++ b/django/forms/widgets.py\<newline>@@ -1 +1 @@\<newline>-x\<newline>+y\<newline>''],
        True)"
  using header_replaced [of "[''patch.diff'' \<mapsto> ''--- /tmp/a.py\<newline>+++ /tmp/b.py\<newline>@@ -1 +1 @@\<newline>-x\<newline>+y\<newline>'']"
      "''patch.diff''" "''--- /tmp/a.py\<newline>+++ /tmp/b.py\<newline>@@ -1 +1 @@\<newline>-x\<newline>+y\<newline>''"]
  by (simp add: readlines_def new_header_def)

text \<open>
  For the target path \<open>pkg/mod.py\<close> of the specification the first three lines are not
  the header of that path.
\<close>

theorem header_path_fixed:
  "modify_patch_file Written
        [''patch.diff'' \<mapsto> ''--- /tmp/a.py\<newline>+++ /tmp/b.py\<newline>@@ -1 +1 @@\<newline>-x\<newline>+y\<newline>''] ''patch.diff''
     = ([''patch.diff'' \<mapsto>
          ''diff --git a/django/forms/widgets.py b/django/forms/widgets.py\<newline>--- a/django/forms/widgets.py\<newline>+++ b/django/forms/widgets.py\<newline>@@ -1 +1 @@\<newline>-x\<newline>+y\<newline>''],
        True)
   \<and> take 3 (readlines ''diff --git a/django/forms/widgets.py b/django/forms/widgets.py\<newline>--- a/django/forms/widgets.py\<newline>+++ b/django/forms/widgets.py\<newline>@@ -1 +1 @@\<newline>-x\<newline>+y\<newline>'')
       \<noteq> canonical_header ''pkg/mod.py''"
  by (simp add: modify_patch_file_def writelines_def readlines_def new_header_def
      canonical_header_def)

text \<open>
  C9, as the code has it. \<open>remove_docstrings_from_patch\<close> and \<open>modify_patch_file\<close>
  return \<open>True\<close> only when the whole new content is in the patch file; when either write
  fails the file of the record is as it was before: no record is saved. The patch file is
  untouched when \<open>open\<close> fails; when the exception comes after \<open>open\<close>, it holds the
  start of the new content and no longer the content it had.
\<close>

theorem write_failure_reported:
  "(remove_docstrings_from_patch w fs p = (fs1, True)
      \<longrightarrow> w = Written \<and> fs p \<noteq> None \<and> fs1 = fs(p \<mapsto> strip_text (the (fs p))))
   \<and> (modify_patch_file w fs p = (fs2, True)
      \<longrightarrow> w = Written \<and> fs p \<noteq> None
          \<and> fs2 = fs(p \<mapsto> concat (new_header @ drop 2 (readlines (the (fs p))))))
   \<and> ((w1 \<noteq> Written \<or> w2 \<noteq> Written) \<and> out \<noteq> p
      \<longrightarrow> package_patch json_dumps w1 w2 w3 fs p iid out out = fs out)
   \<and> remove_docstrings_from_patch OpenFails fs p = (fs, False)
   \<and> modify_patch_file OpenFails fs p = (fs, False)
   \<and> (fs p = Some t
      \<longrightarrow> remove_docstrings_from_patch (FailsAfter k) fs p
            = (fs(p \<mapsto> take k (strip_text t)), False)
          \<and> modify_patch_file (FailsAfter k) fs p
            = (fs(p \<mapsto> take k (concat (new_header @ drop 2 (readlines t)))), False))"
proof -
  have a: "remove_docstrings_from_patch OpenFails fs p = (fs, False)"
    by (simp add: remove_docstrings_from_patch_def writelines_def split: option.splits)
  have b: "modify_patch_file OpenFails fs p = (fs, False)"
    by (simp add: modify_patch_file_def writelines_def split: option.splits)
  have c: "remove_docstrings_from_patch (FailsAfter k) fs p
            = (fs(p \<mapsto> take k (strip_text t)), False)
          \<and> modify_patch_file (FailsAfter k) fs p
            = (fs(p \<mapsto> take k (concat (new_header @ drop 2 (readlines t)))), False)"
    if "fs p = Some t"
    using that
    by (simp add: remove_docstrings_from_patch_def modify_patch_file_def writelines_def
        strip_text_def)
  show ?thesis
    using a b c remove_docstrings_True modify_patch_True package_patch_no_record by blast
qed

theorem write_failure_reported_witness:
  "remove_docstrings_from_patch Written [''patch.diff'' \<mapsto> ''--- a\<newline>+++ b\<newline>@@ -1 +1,2 @@\<newline> x\<newline>+'' @ dq3 @ ''doc'' @ dq3 @ ''\<newline>'']
       ''patch.diff''
     = ([''patch.diff'' \<mapsto> ''--- a\<newline>+++ b\<newline>@@ -1 +1,2 @@\<newline> x\<newline>''], True)
   \<and> modify_patch_file Written [''patch.diff'' \<mapsto> ''--- a\<newline>+++ b\<newline>@@ -1 +1,2 @@\<newline> x\<newline>+'' @ dq3 @ ''doc'' @ dq3 @ ''\<newline>'']
       ''patch.diff''
     = ([''patch.diff'' \<mapsto> ''diff --git a/django/forms/widgets.py b/django/forms/widgets.py\<newline>--- a/django/forms/widgets.py\<newline>+++ b/django/forms/widgets.py\<newline>@@ -1 +1,2 @@\<newline> x\<newline>+'' @ dq3 @ ''doc'' @ dq3 @ ''\<newline>''], True)
   \<and> FailsAfter 4 \<noteq> Written \<and> ''generated.jsonl'' \<noteq> ''patch.diff''
   \<and> package_patch (\<lambda>d. model_patch d) (FailsAfter 4) Written Written
        [''patch.diff'' \<mapsto> ''--- a\<newline>+++ b\<newline>@@ -1 +1,2 @@\<newline> x\<newline>+'' @ dq3 @ ''doc'' @ dq3 @ ''\<newline>'']
        ''patch.diff'' ''i1'' ''generated.jsonl'' ''generated.jsonl'' = None
   \<and> [''patch.diff'' \<mapsto> ''--- a\<newline>+++ b\<newline>@@ -1 +1,2 @@\<newline> x\<newline>+'' @ dq3 @ ''doc'' @ dq3 @ ''\<newline>''] ''patch.diff''
       = Some (''--- a\<newline>+++ b\<newline>@@ -1 +1,2 @@\<newline> x\<newline>+'' @ dq3 @ ''doc'' @ dq3 @ ''\<newline>'')
   \<and> remove_docstrings_from_patch (FailsAfter 4) [''patch.diff'' \<mapsto> ''--- a\<newline>+++ b\<newline>@@ -1 +1,2 @@\<newline> x\<newline>+'' @ dq3 @ ''doc'' @ dq3 @ ''\<newline>'']
       ''patch.diff''
     = ([''patch.diff'' \<mapsto> ''--- ''], False)"
  using write_failure_reported [of Written
      "[''patch.diff'' \<mapsto> ''--- a\<newline>+++ b\<newline>@@ -1 +1,2 @@\<newline> x\<newline>+'' @ dq3 @ ''doc'' @ dq3 @ ''\<newline>'']"
      "''patch.diff''"
      "[''patch.diff'' \<mapsto> ''--- a\<newline>+++ b\<newline>@@ -1 +1,2 @@\<newline> x\<newline>'']"
      "[''patch.diff'' \<mapsto> ''diff --git a/django/forms/widgets.py b/django/forms/widgets.py\<newline>--- a/django/forms/widgets.py\<newline>+++ b/django/forms/widgets.py\<newline>@@ -1 +1,2 @@\<newline> x\<newline>+'' @ dq3 @ ''doc'' @ dq3 @ ''\<newline>'']"
      "FailsAfter 4" Written "''generated.jsonl''" "\<lambda>d. model_patch d" Written "''i1''"
      "''--- a\<newline>+++ b\<newline>@@ -1 +1,2 @@\<newline> x\<newline>+'' @ dq3 @ ''doc'' @ dq3 @ ''\<newline>''" 4]
  by (simp add: remove_docstrings_from_patch_def modify_patch_file_def writelines_def
      package_patch_def readlines_def new_header_def strip_lines_def strip_text_def stripper_defs)

text \<open>
  A write that fails after four characters leaves the patch file with neither its content
  from before nor the whole new content.
\<close>

theorem write_failure_truncates:
  "remove_docstrings_from_patch (FailsAfter 4)
       [''patch.diff'' \<mapsto> ''--- a\<newline>+++ b\<newline>@@ -1 +1,2 @@\<newline> x\<newline>+'' @ dq3 @ ''doc'' @ dq3 @ ''\<newline>'']
       ''patch.diff''
     = ([''patch.diff'' \<mapsto> ''--- ''], False)
   \<and> ''--- '' \<noteq> ''--- a\<newline>+++ b\<newline>@@ -1 +1,2 @@\<newline> x\<newline>+'' @ dq3 @ ''doc'' @ dq3 @ ''\<newline>''
   \<and> ''--- '' \<noteq> strip_text (''--- a\<newline>+++ b\<newline>@@ -1 +1,2 @@\<newline> x\<newline>+'' @ dq3 @ ''doc'' @ dq3 @ ''\<newline>'')
   \<and> strip_text (''--- a\<newline>+++ b\<newline>@@ -1 +1,2 @@\<newline> x\<newline>+'' @ dq3 @ ''doc'' @ dq3 @ ''\<newline>'')
       = ''--- a\<newline>+++ b\<newline>@@ -1 +1,2 @@\<newline> x\<newline>''"
  by (simp add: remove_docstrings_from_patch_def writelines_def readlines_def strip_lines_def
      strip_text_def stripper_defs)

section \<open>Lemmas on the code extractor\<close>

lemma length_lstrip: "length (lstrip s) \<le> length s"
  by (simp add: lstrip_def length_dropWhile_le)

lemma length_rstrip: "length (rstrip s) \<le> length s"
  using length_dropWhile_le [of isspace "rev s"] by (simp add: rstrip_def)

lemma startswith_length: "startswith s p \<Longrightarrow> length p \<le> length s"
  by (simp add: startswith_prefix prefix_length_le)

lemma endswith_length: "endswith s p \<Longrightarrow> length p \<le> length s"
  by (simp add: endswith_suffix suffix_length_le)

lemma startswith_python_fence: "startswith s ''```python'' \<Longrightarrow> startswith s ''```''"
  by (auto simp: startswith_prefix elim!: prefixE)

lemma clean_code_output_id:
  assumes "\<not> startswith r ''```''" "\<not> endswith r ''```''"
  shows "clean_code_output r = r"
  using assms startswith_python_fence [of r] by (auto simp: clean_code_output_def)

lemma strip_prefix_le: "length (lstrip (drop n s)) \<le> length s"
  using length_lstrip [of "drop n s"] by simp

lemma strip_suffix_le: "length (rstrip (take n s)) \<le> length s"
  using length_rstrip [of "take n s"] by simp

lemma strip_prefix_shorter:
  assumes "startswith s p" "p \<noteq> []"
  shows "length (lstrip (drop (length p) s)) < length s"
proof -
  have "length (lstrip (drop (length p) s)) \<le> length s - length p"
    using length_lstrip [of "drop (length p) s"] by simp
  moreover have "length p \<le> length s"
    using assms(1) by (rule startswith_length)
  moreover have "0 < length p"
    using assms(2) by simp
  ultimately show ?thesis by linarith
qed

lemma strip_suffix_shorter:
  assumes "endswith s p" "p \<noteq> []"
  shows "length (rstrip (take (length s - length p) s)) < length s"
proof -
  have "length (rstrip (take (length s - length p) s)) \<le> length s - length p"
    using length_rstrip [of "take (length s - length p) s"] by simp
  moreover have "length p \<le> length s"
    using assms(1) by (rule endswith_length)
  moreover have "0 < length p"
    using assms(2) by simp
  ultimately show ?thesis by linarith
qed

lemma clean_code_output_shorter:
  assumes "startswith r ''```'' \<or> endswith r ''```''"
  shows "length (clean_code_output r) < length r"
proof -
  define code1 where "code1 = (if startswith r ''```python''
                   then lstrip (drop (length ''```python'') r) else r)"
  define code2 where "code2 = (if startswith code1 ''```''
                   then lstrip (drop (length ''```'') code1) else code1)"
  define code3 where "code3 = (if endswith code2 ''```''
         then rstrip (take (length code2 - length ''```'') code2) else code2)"
  have res: "clean_code_output r = code3"
    by (simp add: clean_code_output_def code1_def code2_def code3_def Let_def)
  have l2: "length code2 \<le> length code1"
    unfolding code2_def using strip_prefix_le [of "length ''```''" code1] by auto
  have l3: "length code3 \<le> length code2"
    unfolding code3_def using strip_suffix_le [of "length code2 - length ''```''" code2] by auto
  show ?thesis
  proof (cases "startswith r ''```python''")
    case True
    then have "length code1 < length r"
      unfolding code1_def using strip_prefix_shorter [of r "''```python''"] by auto
    then show ?thesis using l2 l3 res by simp
  next
    case notpy: False
    then have c1: "code1 = r" by (simp add: code1_def)
    show ?thesis
    proof (cases "startswith r ''```''")
      case True
      then have "length code2 < length r"
        unfolding code2_def c1 using strip_prefix_shorter [of r "''```''"] by auto
      then show ?thesis using l3 res by simp
    next
      case False
      then have c2: "code2 = r" by (simp add: code2_def c1)
      have e: "endswith r ''```''" using assms False by simp
      then have "length code3 < length r"
        unfolding code3_def c2 using strip_suffix_shorter [of r "''```''"] by auto
      then show ?thesis using res by simp
    qed
  qed
qed

lemma until_fence_Some:
  "until_fence t = Some g \<Longrightarrow> \<exists>rest. t = g @ fence @ rest"
proof (induction t arbitrary: g)
  case Nil
  then show ?case by simp
next
  case (Cons c cs)
  show ?case
  proof (cases "startswith (c # cs) fence")
    case True
    then have "g = []" using Cons.prems by simp
    moreover obtain rest where "c # cs = fence @ rest"
      using True by (auto simp: startswith_prefix elim: prefixE)
    ultimately show ?thesis by auto
  next
    case False
    then obtain g' where g': "until_fence cs = Some g'" "g = c # g'"
      using Cons.prems by auto
    then obtain rest where "cs = g' @ fence @ rest"
      using Cons.IH by blast
    then show ?thesis using g' by auto
  qed
qed

lemma match_at_Some:
  assumes "match_at opener s = Some g"
  shows "\<exists>rest. s = opener @ g @ fence @ rest"
proof -
  have p: "startswith s opener" and u: "until_fence (drop (length opener) s) = Some g"
    using assms by (auto simp: match_at_def split: if_splits)
  obtain t where t: "s = opener @ t"
    using p by (auto simp: startswith_prefix elim: prefixE)
  then obtain rest where "t = g @ fence @ rest"
    using u until_fence_Some by auto
  then show ?thesis using t by auto
qed

lemma re_search_Some:
  "re_search opener s = Some g \<Longrightarrow> \<exists>pre rest. s = pre @ opener @ g @ fence @ rest"
proof (induction s)
  case Nil
  then obtain rest where "[] = opener @ g @ fence @ rest"
    using match_at_Some [of opener "[]" g] by auto
  then show ?case by (metis append_Nil)
next
  case (Cons c cs)
  show ?case
  proof (cases "match_at opener (c # cs)")
    case None
    then have "re_search opener cs = Some g" using Cons.prems by simp
    then obtain pre rest where "cs = pre @ opener @ g @ fence @ rest"
      using Cons.IH by blast
    then have "c # cs = (c # pre) @ opener @ g @ fence @ rest" by simp
    then show ?thesis by blast
  next
    case (Some g')
    then have "g' = g" using Cons.prems by simp
    then obtain rest where "c # cs = opener @ g @ fence @ rest"
      using Some match_at_Some by blast
    then show ?thesis by (metis append_Nil)
  qed
qed

lemma startswith_cut:
  assumes "x \<noteq> []" "startswith (x @ p @ t) p"
  shows "startswith (x @ butlast p) p"
proof (cases "p = []")
  case True
  then show ?thesis by simp
next
  case False
  obtain zs where zs: "x @ p @ t = p @ zs"
    using assms(2) by (auto simp: startswith_prefix elim: prefixE)
  have "take (length p) (x @ p @ t) = p"
    unfolding zs by simp
  moreover have "take (length p) (x @ p @ t) = take (length p) (x @ butlast p)"
  proof -
    have "p = butlast p @ [last p]"
      using False by simp
    then have "x @ p @ t = (x @ butlast p) @ (last p # t)"
      by (metis append.assoc append_Cons append_Nil)
    moreover have "length p \<le> length (x @ butlast p)"
      using assms(1) by (cases x) simp_all
    ultimately show ?thesis
      by (metis append_Nil2 take_append take_eq_Nil2 diff_is_0_eq)
  qed
  ultimately have "take (length p) (x @ butlast p) = p"
    by simp
  then have "prefix p (x @ butlast p)"
    by (metis take_is_prefix)
  then show ?thesis
    by (simp add: startswith_prefix)
qed

lemma until_fence_body:
  "\<not> contains (body @ butlast fence) fence \<Longrightarrow> until_fence (body @ fence @ rest) = Some body"
proof (induction body)
  case Nil
  show ?case by (simp add: fence_def)
next
  case (Cons c cs)
  have ns: "\<not> startswith ((c # cs) @ butlast fence) fence"
    and nc: "\<not> contains (cs @ butlast fence) fence"
    using Cons.prems by auto
  have "\<not> startswith ((c # cs) @ fence @ rest) fence"
    using ns startswith_cut [of "c # cs" fence rest] by blast
  then show ?case using Cons.IH [OF nc] by simp
qed

lemma match_at_opener:
  "match_at opener (opener @ t) = until_fence t"
  by (simp add: match_at_def startswith_prefix)

lemma re_search_first:
  assumes "\<not> contains (pre @ butlast opener) opener" "until_fence t = Some g"
  shows "re_search opener (pre @ opener @ t) = Some g"
  using assms(1)
proof (induction pre)
  case Nil
  show ?case
    using assms(2) match_at_opener [of opener t]
    by (cases "opener @ t") (auto simp: match_at_def)
next
  case (Cons c cs)
  have ns: "\<not> startswith ((c # cs) @ butlast opener) opener"
    and nc: "\<not> contains (cs @ butlast opener) opener"
    using Cons.prems by auto
  have "\<not> startswith ((c # cs) @ opener @ t) opener"
    using ns startswith_cut [of "c # cs" opener t] by blast
  then have "match_at opener ((c # cs) @ opener @ t) = None"
    by (simp add: match_at_def)
  then show ?case using Cons.IH [OF nc] by simp
qed

section \<open>Claims on the code extractor\<close>

text \<open>
  C8, as the code has it. Cleaning a second time changes nothing exactly when the text
  cleaned once neither starts nor ends with a fence: \<open>clean_code_output\<close> takes off one
  fence at the end, and at most two at the start, each time it runs.
\<close>

theorem clean_twice:
  "clean_code_output (clean_code_output x) = clean_code_output x
   \<longleftrightarrow> \<not> startswith (clean_code_output x) ''```'' \<and> \<not> endswith (clean_code_output x) ''```''"
  using clean_code_output_id [of "clean_code_output x"]
    clean_code_output_shorter [of "clean_code_output x"]
  by auto

theorem clean_twice_witness:
  "clean_code_output ''```python\<newline>x = 1\<newline>```'' = ''x = 1''
   \<and> clean_code_output (clean_code_output ''```python\<newline>x = 1\<newline>```'')
       = clean_code_output ''```python\<newline>x = 1\<newline>```''"
  using clean_twice [of "''```python\<newline>x = 1\<newline>```''"]
  by (simp add: clean_code_output_def lstrip_def rstrip_def isspace_def endswith_def)

text \<open>
  A block fenced twice: the first cleaning leaves the inner fences, the second one takes
  them off.
\<close>

theorem clean_not_idempotent:
  "clean_code_output ''```\<newline>```\<newline>x = 1\<newline>```\<newline>```'' = ''```\<newline>x = 1\<newline>```''
   \<and> clean_code_output (clean_code_output ''```\<newline>```\<newline>x = 1\<newline>```\<newline>```'') = ''x = 1''
   \<and> clean_code_output (clean_code_output ''```\<newline>```\<newline>x = 1\<newline>```\<newline>```'')
       \<noteq> clean_code_output ''```\<newline>```\<newline>x = 1\<newline>```\<newline>```''"
  by (simp add: clean_code_output_def lstrip_def rstrip_def isspace_def endswith_def)

text \<open>
  C6, as the code has it. With no match of either fence pattern and no code at the start
  of the trimmed output, \<open>extract_code_from_output\<close> returns the output as it is; the run
  ends with the extraction error only when that output is empty, and goes on with the
  cleaned output otherwise.
\<close>

theorem no_code_found_returns_output:
  "re_search python_open output = None \<and> re_search plain_open output = None
     \<and> \<not> starts_like_code output
   \<longrightarrow> extract_code_from_output output = output
       \<and> (extract_stage output = Inl ExtractionError \<longleftrightarrow> output = [])
       \<and> (output \<noteq> [] \<longrightarrow> extract_stage output = Inr (clean_code_output output))"
  by (simp add: extract_code_from_output_def extract_stage_def)

theorem no_code_found_returns_output_witness:
  "re_search python_open ''Sorry, I cannot fix this.'' = None
   \<and> re_search plain_open ''Sorry, I cannot fix this.'' = None
   \<and> \<not> starts_like_code ''Sorry, I cannot fix this.''
   \<and> extract_code_from_output ''Sorry, I cannot fix this.'' = ''Sorry, I cannot fix this.''
   \<and> ''Sorry, I cannot fix this.'' \<noteq> []
   \<and> extract_stage ''Sorry, I cannot fix this.'' = Inr ''Sorry, I cannot fix this.''"
  using no_code_found_returns_output [of "''Sorry, I cannot fix this.''"]
  by (simp add: match_at_def python_open_def plain_open_def starts_like_code_def strip_def
      lstrip_def rstrip_def isspace_def dq3_def clean_code_output_def endswith_def)

text \<open>
  An answer with no fence and no code is returned whole, and \<open>main\<close> goes on with it.
\<close>

theorem extractor_does_not_fail:
  "re_search python_open ''Sorry, I cannot fix this.'' = None
   \<and> re_search plain_open ''Sorry, I cannot fix this.'' = None
   \<and> \<not> contains ''Sorry, I cannot fix this.'' fence
   \<and> \<not> starts_like_code ''Sorry, I cannot fix this.''
   \<and> extract_code_from_output ''Sorry, I cannot fix this.'' = ''Sorry, I cannot fix this.''
   \<and> extract_stage ''Sorry, I cannot fix this.'' \<noteq> Inl ExtractionError"
  by (simp add: match_at_def python_open_def plain_open_def starts_like_code_def strip_def
      lstrip_def rstrip_def isspace_def dq3_def extract_code_from_output_def extract_stage_def
      fence_def)

text \<open>
  C10. When the first place where \<open>```python\<close> and a line feed stand is right after
  \<open>pre\<close>, and the first fence after it is right after \<open>body\<close>, the extractor returns
  \<open>body\<close>, whatever follows that fence; the same holds for the first untagged opener when
  the tagged pattern matches nowhere. Every match of the tagged pattern has the line feed
  right after the tag.
\<close>

theorem earliest_block_returned:
  "(\<not> contains (pre @ ''```python'') python_open \<and> \<not> contains (body @ ''``'') fence
      \<longrightarrow> extract_code_from_output (pre @ python_open @ body @ fence @ rest) = body)
   \<and> (re_search python_open (pre' @ plain_open @ body' @ fence @ rest') = None
        \<and> \<not> contains (pre' @ ''```'') plain_open \<and> \<not> contains (body' @ ''``'') fence
      \<longrightarrow> extract_code_from_output (pre' @ plain_open @ body' @ fence @ rest') = body')
   \<and> (re_search python_open s = Some g
      \<longrightarrow> (\<exists>before after. s = before @ ''```python'' @ ''\<newline>'' @ g @ ''```'' @ after))"
proof -
  have bp: "butlast python_open = ''```python''" and bq: "butlast plain_open = ''```''"
    and bf: "butlast fence = ''``''"
    by (simp_all add: python_open_def plain_open_def fence_def)
  have a: "extract_code_from_output (pre @ python_open @ body @ fence @ rest) = body"
    if "\<not> contains (pre @ ''```python'') python_open" "\<not> contains (body @ ''``'') fence"
    for pre body rest
  proof -
    have "until_fence (body @ fence @ rest) = Some body"
      using that(2) until_fence_body [of body rest] by (simp add: bf)
    then have "re_search python_open (pre @ python_open @ body @ fence @ rest) = Some body"
      using that(1) re_search_first [of pre python_open] by (simp add: bp)
    then show ?thesis by (simp add: extract_code_from_output_def)
  qed
  have b: "extract_code_from_output (pre @ plain_open @ body @ fence @ rest) = body"
    if "re_search python_open (pre @ plain_open @ body @ fence @ rest) = None"
      "\<not> contains (pre @ ''```'') plain_open" "\<not> contains (body @ ''``'') fence"
    for pre body rest
  proof -
    have "until_fence (body @ fence @ rest) = Some body"
      using that(3) until_fence_body [of body rest] by (simp add: bf)
    then have "re_search plain_open (pre @ plain_open @ body @ fence @ rest) = Some body"
      using that(2) re_search_first [of pre plain_open] by (simp add: bq)
    then show ?thesis using that(1) by (simp add: extract_code_from_output_def)
  qed
  have c: "\<exists>before after. s = before @ ''```python'' @ ''\<newline>'' @ g @ ''```'' @ after"
    if "re_search python_open s = Some g"
    using re_search_Some [OF that] by (simp add: python_open_def fence_def)
  show ?thesis using a b c by blast
qed

theorem earliest_block_returned_witness:
  "\<not> contains (''Here is the fix:\<newline>'' @ ''```python'') python_open
   \<and> \<not> contains (''x = 1\<newline>'' @ ''``'') fence
   \<and> extract_code_from_output (''Here is the fix:\<newline>'' @ python_open @ ''x = 1\<newline>'' @ fence
        @ ''\<newline>or:\<newline>```python\<newline>x = 2\<newline>```\<newline>'') = ''x = 1\<newline>''
   \<and> re_search python_open (''Try:\<newline>'' @ plain_open @ ''y = 1\<newline>'' @ fence
        @ ''\<newline>or:\<newline>```\<newline>y = 2\<newline>```\<newline>'') = None
   \<and> \<not> contains (''Try:\<newline>'' @ ''```'') plain_open
   \<and> \<not> contains (''y = 1\<newline>'' @ ''``'') fence
   \<and> extract_code_from_output (''Try:\<newline>'' @ plain_open @ ''y = 1\<newline>'' @ fence
        @ ''\<newline>or:\<newline>```\<newline>y = 2\<newline>```\<newline>'') = ''y = 1\<newline>''
   \<and> re_search python_open ''a ```python\<newline>z```'' = Some ''z''
   \<and> re_search python_open ''a ```python z = 1\<newline>```'' = None"
  using earliest_block_returned [of "''Here is the fix:\<newline>''" "''x = 1\<newline>''"
      "''\<newline>or:\<newline>```python\<newline>x = 2\<newline>```\<newline>''"
      "''Try:\<newline>''" "''y = 1\<newline>''" "''\<newline>or:\<newline>```\<newline>y = 2\<newline>```\<newline>''"
      "''a ```python\<newline>z```''" "''z''"]
  by (simp add: match_at_def python_open_def plain_open_def fence_def)

end
